theory Spec2Isabelle
  imports Main "HOL-Library.Multiset" "HOL-Library.Char_ord" "HOL-Library.List_Lexorder"
begin

section \<open>Strings\<close>

text \<open>
  Metric names, prefixes and patterns are Python \<open>str\<close> values, modelled as \<open>string\<close>.
  \<open>startswith s p\<close> is \<^verbatim>\<open>s.startswith(p)\<close> and \<open>str_contains s p\<close> is \<^verbatim>\<open>p in s\<close>
  (occurrence of \<open>p\<close> as a contiguous substring of \<open>s\<close>; the empty pattern occurs
  in every string).
\<close>

fun startswith :: "string \<Rightarrow> string \<Rightarrow> bool" where
  "startswith s [] = True"
| "startswith [] (c # p) = False"
| "startswith (d # s) (c # p) = (d = c \<and> startswith s p)"

fun str_contains :: "string \<Rightarrow> string \<Rightarrow> bool" where
  "str_contains [] p = (p = [])"
| "str_contains (d # s) p = (startswith (d # s) p \<or> str_contains s p)"

section \<open>The classification tables\<close>

text \<open>
  \<^verbatim>\<open>METRIC_SOURCES\<close> is a dict literal; iteration over \<^verbatim>\<open>.items()\<close> follows the order of
  the literal, so the table is the list of its items in that order.
\<close>

record source_info =
  name :: string
  description :: string
  job :: string

type_synonym rule_table = "(string \<times> source_info) list"

definition METRIC_SOURCES :: rule_table where
  "METRIC_SOURCES =
    [(''kube_'', \<lparr>name = ''kube-state-metrics'',
        description = ''Kubernetes object state metrics'', job = ''kube-state-metrics''\<rparr>),
     (''node_'', \<lparr>name = ''node-exporter'',
        description = ''Host/node hardware and OS metrics'', job = ''node-exporter''\<rparr>),
     (''container_'', \<lparr>name = ''cAdvisor'',
        description = ''Container resource usage and performance metrics'', job = ''kubelet''\<rparr>),
     (''kubelet_'', \<lparr>name = ''Kubelet'',
        description = ''Kubelet component metrics'', job = ''kubelet''\<rparr>),
     (''prometheus_'', \<lparr>name = ''Prometheus'',
        description = ''Prometheus server self-monitoring metrics'', job = ''prometheus''\<rparr>),
     (''alertmanager_'', \<lparr>name = ''Alertmanager'',
        description = ''Alertmanager metrics'', job = ''alertmanager''\<rparr>),
     (''grafana_'', \<lparr>name = ''Grafana'',
        description = ''Grafana metrics'', job = ''grafana''\<rparr>),
     (''otelcol_'', \<lparr>name = ''OpenTelemetry Collector'',
        description = ''OTel Collector metrics'', job = ''gateway-collector''\<rparr>),
     (''up'', \<lparr>name = ''Prometheus'',
        description = ''Target up/down status (Prometheus internal)'', job = ''various''\<rparr>),
     (''scrape_'', \<lparr>name = ''Prometheus'',
        description = ''Scrape metadata (Prometheus internal)'', job = ''various''\<rparr>)]"

definition RECORDING_RULE_PATTERNS :: "string list" where
  "RECORDING_RULE_PATTERNS = ['':'', ''cluster:'', ''node:'', ''namespace:'', ''pod:'']"

section \<open>categorize_metrics\<close>

text \<open>
  The result is a \<^verbatim>\<open>defaultdict(list)\<close> turned into a dict: keys in order of first
  insertion, each bound to the list of the names appended to it. \<open>dict_append d k v\<close> is
  \<^verbatim>\<open>d[k].append(v)\<close> on such a dict: an existing key keeps its position, a new key is
  created with the empty list and goes last.
\<close>

type_synonym 'v buckets = "(string \<times> 'v list) list"

fun dict_append :: "'v buckets \<Rightarrow> string \<Rightarrow> 'v \<Rightarrow> 'v buckets" where
  "dict_append [] k v = [(k, [v])]"
| "dict_append ((k', vs) # d) k v =
     (if k' = k then (k', vs @ [v]) # d else (k', vs) # dict_append d k v)"

text \<open>The contents of bucket \<open>k\<close>; a key that is absent holds nothing.\<close>

definition bucket :: "'v buckets \<Rightarrow> string \<Rightarrow> 'v list" where
  "bucket d k = (case map_of d k of None \<Rightarrow> [] | Some vs \<Rightarrow> vs)"

text \<open>
  \<^verbatim>\<open>any(pattern in metric for pattern in RECORDING_RULE_PATTERNS)\<close>, with the pattern
  list as an argument of the scan.
\<close>

fun any_pattern_in :: "string list \<Rightarrow> string \<Rightarrow> bool" where
  "any_pattern_in [] metric = False"
| "any_pattern_in (pattern # patterns) metric =
     (str_contains metric pattern \<or> any_pattern_in patterns metric)"

definition is_recording_rule :: "string \<Rightarrow> bool" where
  "is_recording_rule metric = any_pattern_in RECORDING_RULE_PATTERNS metric"

text \<open>
  The inner loop over the rule table: the first rule whose prefix the name starts with,
  if any (\<open>None\<close> is \<^verbatim>\<open>categorized_flag\<close> still \<^verbatim>\<open>False\<close> after the loop).
\<close>

fun first_prefix :: "rule_table \<Rightarrow> string \<Rightarrow> source_info option" where
  "first_prefix [] metric = None"
| "first_prefix ((prefix, info) # rules) metric =
     (if startswith metric prefix then Some info else first_prefix rules metric)"

text \<open>The key under which one pass of the outer loop body files the name.\<close>

definition bucket_name :: "rule_table \<Rightarrow> string \<Rightarrow> string" where
  "bucket_name rules metric =
     (if is_recording_rule metric
         \<and> metric \<notin> set [''up'', ''scrape_duration_seconds'', ''scrape_samples_scraped'']
      then ''Recording Rules''
      else case first_prefix rules metric of
             Some info \<Rightarrow> name info
           | None \<Rightarrow> ''Other/Unknown'')"

text \<open>
  The outer loop, with the dict built so far as accumulator. The rule table is the module
  constant in the program; the loop is written over any table so that the order of the
  rules can be reasoned about, and \<open>categorize_metrics\<close> fixes the table.
\<close>

fun categorize_loop :: "rule_table \<Rightarrow> string buckets \<Rightarrow> string list \<Rightarrow> string buckets" where
  "categorize_loop rules categorized [] = categorized"
| "categorize_loop rules categorized (metric # metrics) =
     categorize_loop rules (dict_append categorized (bucket_name rules metric) metric) metrics"

definition categorize_metrics_with :: "rule_table \<Rightarrow> string list \<Rightarrow> string buckets" where
  "categorize_metrics_with rules metrics = categorize_loop rules [] metrics"

definition categorize_metrics :: "string list \<Rightarrow> string buckets" where
  "categorize_metrics metrics = categorize_metrics_with METRIC_SOURCES metrics"

text \<open>The colon test: the name contains the character \<open>:\<close>.\<close>

definition contains_colon :: "string \<Rightarrow> bool" where
  "contains_colon metric = (CHR '':'' \<in> set metric)"

section \<open>get_job_stats\<close>

text \<open>
  A scrape target is a Python dict decoded from the targets endpoint. The fields the
  program reads hold either a string or a label set; a label set maps label names to
  string values. A field may be absent, and \<^verbatim>\<open>labels\<close> may hold a string instead of a
  label set: subscripting an absent key raises \<^verbatim>\<open>KeyError\<close>, and \<^verbatim>\<open>.get\<close> on a string
  raises \<^verbatim>\<open>AttributeError\<close>.
\<close>

datatype jvalue = Str string | Labels "(string \<times> string) list"

type_synonym target = "(string \<times> jvalue) list"

datatype py_error = KeyError string | AttributeError

record endpoint =
  url :: jvalue
  health :: jvalue
  labels :: jvalue

text \<open>
  One entry of \<^verbatim>\<open>job_stats\<close>: the dict with the keys \<^verbatim>\<open>count\<close>, \<^verbatim>\<open>up\<close> and
  \<^verbatim>\<open>endpoints\<close> (\<open>count_stat\<close> is the \<^verbatim>\<open>count\<close> entry). The counters are Python ints.
\<close>

record job_stat =
  count_stat :: int
  up :: int
  endpoints :: "endpoint list"

type_synonym job_stats = "(string \<times> job_stat) list"

text \<open>The value the \<^verbatim>\<open>defaultdict\<close> factory makes for a new key.\<close>

definition default_stat :: job_stat where
  "default_stat = \<lparr>count_stat = 0, up = 0, endpoints = []\<rparr>"

text \<open>
  \<open>dict_update d k f\<close> is an in-place change \<open>f\<close> of \<^verbatim>\<open>job_stats[k]\<close>: the subscript
  creates the default entry, last in the dict, when the key is new.
\<close>

fun dict_update :: "job_stats \<Rightarrow> string \<Rightarrow> (job_stat \<Rightarrow> job_stat) \<Rightarrow> job_stats" where
  "dict_update [] k f = [(k, f default_stat)]"
| "dict_update ((k', s) # d) k f =
     (if k' = k then (k', f s) # d else (k', s) # dict_update d k f)"

text \<open>
  The loop of \<open>get_job_stats\<close>, statement by statement; an exception ends the call and
  the dict built so far is lost with it.
\<close>

fun job_stats_loop :: "job_stats \<Rightarrow> target list \<Rightarrow> py_error + job_stats" where
  "job_stats_loop job_stats [] = Inr job_stats"
| "job_stats_loop job_stats (target # targets) =
     (case map_of target ''labels'' of
        None \<Rightarrow> Inl (KeyError ''labels'')
      | Some (Str s) \<Rightarrow> Inl AttributeError
      | Some (Labels ls) \<Rightarrow>
          (let jb = (case map_of ls ''job'' of None \<Rightarrow> ''unknown'' | Some j \<Rightarrow> j);
               job_stats1 = dict_update job_stats jb (\<lambda>s. s\<lparr>count_stat := count_stat s + 1\<rparr>)
           in case map_of target ''health'' of
                None \<Rightarrow> Inl (KeyError ''health'')
              | Some h \<Rightarrow>
                  (let job_stats2 =
                         (if h = Str ''up''
                          then dict_update job_stats1 jb (\<lambda>s. s\<lparr>up := up s + 1\<rparr>)
                          else job_stats1)
                   in case map_of target ''scrapeUrl'' of
                        None \<Rightarrow> Inl (KeyError ''scrapeUrl'')
                      | Some u \<Rightarrow>
                          job_stats_loop
                            (dict_update job_stats2 jb
                               (\<lambda>s. s\<lparr>endpoints := endpoints s
                                     @ [\<lparr>url = u, health = h, labels = Labels ls\<rparr>]\<rparr>))
                            targets)))"

definition get_job_stats :: "target list \<Rightarrow> py_error + job_stats" where
  "get_job_stats targets = job_stats_loop [] targets"

text \<open>
  What the properties below speak about: the entry of a job (the default entry when the
  key is absent), and what one pass of the loop reads from a target.
\<close>

definition stat_of :: "job_stats \<Rightarrow> string \<Rightarrow> job_stat" where
  "stat_of d k = (case map_of d k of None \<Rightarrow> default_stat | Some s \<Rightarrow> s)"

definition has_required_fields :: "target \<Rightarrow> bool" where
  "has_required_fields t =
     ((case map_of t ''labels'' of Some (Labels ls) \<Rightarrow> True | _ \<Rightarrow> False)
      \<and> map_of t ''health'' \<noteq> None \<and> map_of t ''scrapeUrl'' \<noteq> None)"

definition job_of :: "target \<Rightarrow> string" where
  "job_of t =
     (case map_of t ''labels'' of
        Some (Labels ls) \<Rightarrow> (case map_of ls ''job'' of None \<Rightarrow> ''unknown'' | Some j \<Rightarrow> j)
      | _ \<Rightarrow> ''unknown'')"

definition is_up :: "target \<Rightarrow> bool" where
  "is_up t = (map_of t ''health'' = Some (Str ''up''))"

definition endpoint_of :: "target \<Rightarrow> endpoint option" where
  "endpoint_of t =
     (case (map_of t ''scrapeUrl'', map_of t ''health'', map_of t ''labels'') of
        (Some u, Some h, Some l) \<Rightarrow> Some \<lparr>url = u, health = h, labels = l\<rparr>
      | _ \<Rightarrow> None)"

text \<open>The whole change one well-formed target makes to its job's entry.\<close>

definition account :: "target \<Rightarrow> job_stat \<Rightarrow> job_stat" where
  "account t s =
     \<lparr>count_stat = count_stat s + 1,
      up = (if is_up t then up s + 1 else up s),
      endpoints = endpoints s @ (case endpoint_of t of None \<Rightarrow> [] | Some e \<Rightarrow> [e])\<rparr>"

section \<open>The queries and main\<close>

text \<open>
  The HTTP exchange is the program's environment. What the server does with one GET is
  a \<open>http_result\<close>: no connection, no answer within the timeout, or a response with a
  status code and a body; the body is the JSON envelope it decodes to, or \<open>None\<close> when
  it is not JSON. An envelope has a \<^verbatim>\<open>status\<close> string and may have a \<^verbatim>\<open>data\<close> payload
  (the list of names, or the \<^verbatim>\<open>activeTargets\<close> list).

  The \<^verbatim>\<open>requests\<close> library is not part of the repository; the three calls in the
  \<^verbatim>\<open>try\<close> block follow its documentation: \<^verbatim>\<open>get\<close> raises \<^verbatim>\<open>ConnectionError\<close> or
  \<^verbatim>\<open>Timeout\<close>, \<^verbatim>\<open>raise_for_status\<close> raises \<^verbatim>\<open>HTTPError\<close> for the 4xx and 5xx status
  codes and for no other, \<^verbatim>\<open>json\<close> raises \<^verbatim>\<open>JSONDecodeError\<close>; all four are
  \<^verbatim>\<open>RequestException\<close>s.
\<close>

record 'a envelope =
  status :: string
  data :: "'a option"

datatype 'a http_result = ConnectFailed | TimedOut | Response nat "'a envelope option"

datatype request_exception = ConnectionError | Timeout | HTTPError nat | JSONDecodeError

text \<open>
  Standard output holds the lines and reports written to it, standard error the messages;
  a report is kept as the data it renders.
\<close>

datatype out_item =
    Querying
  | JsonReport "string buckets" job_stats
  | Summary "string buckets" job_stats
  | AllMetrics "string list"

datatype err_item =
    ErrorQuerying request_exception
  | FailedMetrics
  | FailedTargets
  | Traceback py_error

record io =
  stdout :: "out_item list"
  stderr :: "err_item list"

text \<open>
  A statement either returns, or leaves through \<^verbatim>\<open>sys.exit(n)\<close>, or raises an exception
  nothing catches. A program takes the streams and returns them with its outcome.
\<close>

datatype 'a outcome = Return 'a | SystemExit int | Raised py_error

type_synonym 'a prog = "io \<Rightarrow> 'a outcome \<times> io"

definition return_prog :: "'a \<Rightarrow> 'a prog" where
  "return_prog x io = (Return x, io)"

definition bind_prog :: "'a prog \<Rightarrow> ('a \<Rightarrow> 'b prog) \<Rightarrow> 'b prog" where
  "bind_prog m f io =
     (case m io of
        (Return x, io') \<Rightarrow> f x io'
      | (SystemExit n, io') \<Rightarrow> (SystemExit n, io')
      | (Raised e, io') \<Rightarrow> (Raised e, io'))"

definition print_out :: "out_item \<Rightarrow> unit prog" where
  "print_out x io = (Return (), io\<lparr>stdout := stdout io @ [x]\<rparr>)"

definition print_err :: "err_item \<Rightarrow> unit prog" where
  "print_err x io = (Return (), io\<lparr>stderr := stderr io @ [x]\<rparr>)"

definition sys_exit :: "int \<Rightarrow> 'a prog" where
  "sys_exit n io = (SystemExit n, io)"

definition raise_error :: "py_error \<Rightarrow> 'a prog" where
  "raise_error e io = (Raised e, io)"

definition raise_for_status :: "nat \<Rightarrow> bool" where
  "raise_for_status code = (400 \<le> code \<and> code < 600)"

text \<open>The \<^verbatim>\<open>try\<close> block of \<open>query_prometheus\<close>: the exception raised, or the decoded body.\<close>

definition try_get :: "'a http_result \<Rightarrow> request_exception + 'a envelope" where
  "try_get r =
     (case r of
        ConnectFailed \<Rightarrow> Inl ConnectionError
      | TimedOut \<Rightarrow> Inl Timeout
      | Response code body \<Rightarrow>
          if raise_for_status code then Inl (HTTPError code)
          else (case body of None \<Rightarrow> Inl JSONDecodeError | Some d \<Rightarrow> Inr d))"

definition query_prometheus :: "'a http_result \<Rightarrow> 'a envelope prog" where
  "query_prometheus r =
     (case try_get r of
        Inr d \<Rightarrow> return_prog d
      | Inl e \<Rightarrow> bind_prog (print_err (ErrorQuerying e)) (\<lambda>_. sys_exit 1))"

definition get_all_metrics :: "string list http_result \<Rightarrow> string list prog" where
  "get_all_metrics r =
     bind_prog (query_prometheus r) (\<lambda>d.
       if status d \<noteq> ''success''
       then bind_prog (print_err FailedMetrics) (\<lambda>_. sys_exit 1)
       else (case data d of
               None \<Rightarrow> raise_error (KeyError ''data'')
             | Some names \<Rightarrow> return_prog (sort names)))"

definition get_targets :: "target list http_result \<Rightarrow> target list prog" where
  "get_targets r =
     bind_prog (query_prometheus r) (\<lambda>d.
       if status d \<noteq> ''success''
       then bind_prog (print_err FailedTargets) (\<lambda>_. sys_exit 1)
       else (case data d of
               None \<Rightarrow> raise_error (KeyError ''data'')
             | Some ts \<Rightarrow> return_prog ts))"

record args =
  json :: bool
  show_all :: bool

definition main :: "args \<Rightarrow> string list http_result \<Rightarrow> target list http_result \<Rightarrow> unit prog" where
  "main a r1 r2 =
     bind_prog (if \<not> json a then print_out Querying else return_prog ()) (\<lambda>_.
     bind_prog (get_all_metrics r1) (\<lambda>metrics.
     bind_prog (get_targets r2) (\<lambda>targets.
       let categorized = categorize_metrics metrics in
       bind_prog (case get_job_stats targets of
                    Inl e \<Rightarrow> raise_error e
                  | Inr js \<Rightarrow> return_prog js) (\<lambda>job_stats.
         if json a then print_out (JsonReport categorized job_stats)
         else bind_prog (print_out (Summary categorized job_stats)) (\<lambda>_.
                if show_all a then print_out (AllMetrics metrics) else return_prog ())))))"

text \<open>
  The process: both streams start empty; the exit code is 0 when \<open>main\<close> returns, the
  argument of \<^verbatim>\<open>sys.exit\<close>, or 1 after the traceback of an uncaught exception.
\<close>

definition run_main :: "args \<Rightarrow> string list http_result \<Rightarrow> target list http_result \<Rightarrow> int \<times> io" where
  "run_main a r1 r2 =
     (case main a r1 r2 \<lparr>stdout = [], stderr = []\<rparr> of
        (Return _, io) \<Rightarrow> (0, io)
      | (SystemExit n, io) \<Rightarrow> (n, io)
      | (Raised e, io) \<Rightarrow> (1, io\<lparr>stderr := stderr io @ [Traceback e]\<rparr>))"

fun is_report :: "out_item \<Rightarrow> bool" where
  "is_report Querying = False"
| "is_report (JsonReport c js) = True"
| "is_report (Summary c js) = True"
| "is_report (AllMetrics ms) = True"

text \<open>
  The failures of one query: no connection, a timeout, a status code in the given set, or
  an envelope whose status is not \<^verbatim>\<open>success\<close>.
\<close>

definition query_fails :: "(nat \<Rightarrow> bool) \<Rightarrow> 'a http_result \<Rightarrow> bool" where
  "query_fails bad_code r =
     (case r of
        ConnectFailed \<Rightarrow> True
      | TimedOut \<Rightarrow> True
      | Response code body \<Rightarrow>
          bad_code code \<or> (case body of None \<Rightarrow> False | Some d \<Rightarrow> status d \<noteq> ''success''))"

definition non_2xx :: "nat \<Rightarrow> bool" where
  "non_2xx code = (\<not> (200 \<le> code \<and> code < 300))"

definition is_4xx_5xx :: "nat \<Rightarrow> bool" where
  "is_4xx_5xx code = (400 \<le> code \<and> code < 600)"

section \<open>Strings: facts\<close>

lemma startswith_iff: "startswith s p \<longleftrightarrow> (\<exists>t. s = p @ t)"
  by (induction s p rule: startswith.induct) auto

lemma str_contains_iff: "str_contains s p \<longleftrightarrow> (\<exists>xs ys. s = xs @ p @ ys)"
proof (induction s)
  case Nil
  show ?case by auto
next
  case (Cons d s)
  show ?case
  proof
    assume "str_contains (d # s) p"
    then consider "startswith (d # s) p" | "str_contains s p" by auto
    then show "\<exists>xs ys. d # s = xs @ p @ ys"
    proof cases
      case 1
      then obtain t where "d # s = p @ t" by (auto simp: startswith_iff)
      then have "d # s = [] @ p @ t" by simp
      then show ?thesis by blast
    next
      case 2
      then obtain xs ys where "s = xs @ p @ ys" using Cons.IH by blast
      then have "d # s = (d # xs) @ p @ ys" by simp
      then show ?thesis by blast
    qed
  next
    assume "\<exists>xs ys. d # s = xs @ p @ ys"
    then obtain xs ys where eq: "d # s = xs @ p @ ys" by blast
    show "str_contains (d # s) p"
    proof (cases xs)
      case Nil
      with eq have "startswith (d # s) p" by (auto simp: startswith_iff)
      then show ?thesis by simp
    next
      case (Cons x xs')
      with eq have "s = xs' @ p @ ys" by simp
      then have "str_contains s p" using Cons.IH by blast
      then show ?thesis by simp
    qed
  qed
qed

section \<open>categorize_metrics: facts\<close>

lemma any_pattern_in_iff: "any_pattern_in ps m \<longleftrightarrow> (\<exists>p \<in> set ps. str_contains m p)"
  by (induction ps) auto

lemma str_contains_colon: "str_contains m '':'' \<longleftrightarrow> CHR '':'' \<in> set m"
proof -
  have "str_contains m '':'' \<longleftrightarrow> (\<exists>xs ys. m = xs @ CHR '':'' # ys)"
    by (simp add: str_contains_iff)
  also have "\<dots> \<longleftrightarrow> CHR '':'' \<in> set m"
    by (metis in_set_conv_decomp)
  finally show ?thesis .
qed

lemma str_contains_colon_suffix:
  assumes "str_contains m (q @ '':'')"
  shows "CHR '':'' \<in> set m"
proof -
  from assms obtain xs ys where "m = xs @ (q @ '':'') @ ys"
    by (auto simp: str_contains_iff)
  then show ?thesis by simp
qed

lemma is_recording_rule_iff: "is_recording_rule m \<longleftrightarrow> CHR '':'' \<in> set m"
proof
  assume "is_recording_rule m"
  then consider "str_contains m '':''" | "str_contains m (''cluster'' @ '':'')"
    | "str_contains m (''node'' @ '':'')" | "str_contains m (''namespace'' @ '':'')"
    | "str_contains m (''pod'' @ '':'')"
    by (auto simp: is_recording_rule_def RECORDING_RULE_PATTERNS_def)
  then show "CHR '':'' \<in> set m"
    by cases (auto simp only: str_contains_colon dest: str_contains_colon_suffix)
next
  assume "CHR '':'' \<in> set m"
  then show "is_recording_rule m"
    by (simp add: is_recording_rule_def RECORDING_RULE_PATTERNS_def str_contains_colon)
qed

lemma bucket_dict_append:
  "bucket (dict_append d k v) k' = (if k' = k then bucket d k @ [v] else bucket d k')"
  by (induction d k v rule: dict_append.induct) (auto simp: bucket_def)

lemma keys_dict_append:
  "map fst (dict_append d k v) = (if k \<in> set (map fst d) then map fst d else map fst d @ [k])"
  by (induction d k v rule: dict_append.induct) auto

lemma distinct_dict_append:
  "distinct (map fst d) \<Longrightarrow> distinct (map fst (dict_append d k v))"
  by (simp add: keys_dict_append)

lemma mset_dict_append:
  "mset (concat (map snd (dict_append d k v))) = add_mset v (mset (concat (map snd d)))"
  by (induction d k v rule: dict_append.induct) auto

lemma bucket_categorize_loop:
  "bucket (categorize_loop rules d ms) k = bucket d k @ filter (\<lambda>m. bucket_name rules m = k) ms"
  by (induction ms arbitrary: d) (auto simp: bucket_dict_append)

lemma distinct_categorize_loop:
  "distinct (map fst d) \<Longrightarrow> distinct (map fst (categorize_loop rules d ms))"
  by (induction ms arbitrary: d) (auto simp: distinct_dict_append)

lemma mset_categorize_loop:
  "mset (concat (map snd (categorize_loop rules d ms))) = mset (concat (map snd d)) + mset ms"
  by (induction ms arbitrary: d) (auto simp: mset_dict_append)

lemma keyset_dict_append:
  "set (map fst (dict_append d k v)) = insert k (set (map fst d))"
  by (simp add: keys_dict_append insert_absorb)

lemma keys_categorize_loop:
  "set (map fst (categorize_loop rules d ms)) = set (map fst d) \<union> bucket_name rules ` set ms"
proof (induction ms arbitrary: d)
  case Nil
  show ?case by simp
next
  case (Cons m ms)
  have "set (map fst (categorize_loop rules d (m # ms)))
        = set (map fst (dict_append d (bucket_name rules m) m)) \<union> bucket_name rules ` set ms"
    using Cons.IH by simp
  also have "\<dots> = set (map fst d) \<union> bucket_name rules ` set (m # ms)"
    by (simp only: keyset_dict_append) auto
  finally show ?case .
qed

lemma bucket_Nil: "bucket [] k = []"
  by (simp add: bucket_def)

lemma bucket_categorize_metrics_with:
  "bucket (categorize_metrics_with rules ms) k = filter (\<lambda>m. bucket_name rules m = k) ms"
  by (simp add: categorize_metrics_with_def bucket_categorize_loop bucket_Nil)

lemma in_bucket_iff:
  "m \<in> set (bucket (categorize_metrics_with rules ms) k) \<longleftrightarrow> m \<in> set ms \<and> bucket_name rules m = k"
  by (auto simp: bucket_categorize_metrics_with)


lemma keys_categorize_metrics_with:
  "set (map fst (categorize_metrics_with rules ms)) = bucket_name rules ` set ms"
  unfolding categorize_metrics_with_def keys_categorize_loop by simp

lemma mset_categorize_metrics_with:
  "mset (concat (map snd (categorize_metrics_with rules ms))) = mset ms"
  unfolding categorize_metrics_with_def mset_categorize_loop by simp

lemma distinct_categorize_metrics_with:
  "distinct (map fst (categorize_metrics_with rules ms))"
  unfolding categorize_metrics_with_def by (rule distinct_categorize_loop) simp



section \<open>Properties of categorize_metrics\<close>

text \<open>
  C1. For every list of metric names the result of \<open>categorize_metrics\<close> is a partition of
  the list: the buckets taken together hold each name exactly as often as the input does,
  every key labels one bucket only, and each input name lies in exactly one bucket.
\<close>

theorem categorize_metrics_partition:
  "mset (concat (map snd (categorize_metrics ms))) = mset ms
   \<and> distinct (map fst (categorize_metrics ms))
   \<and> (\<forall>m \<in> set ms. \<exists>!k. k \<in> set (map fst (categorize_metrics ms))
                         \<and> m \<in> set (bucket (categorize_metrics ms) k))"
proof (intro conjI ballI)
  show "mset (concat (map snd (categorize_metrics ms))) = mset ms"
    unfolding categorize_metrics_def by (rule mset_categorize_metrics_with)
  show "distinct (map fst (categorize_metrics ms))"
    unfolding categorize_metrics_def by (rule distinct_categorize_metrics_with)
next
  fix m assume m: "m \<in> set ms"
  let ?b = "bucket_name METRIC_SOURCES m"
  show "\<exists>!k. k \<in> set (map fst (categorize_metrics ms))
             \<and> m \<in> set (bucket (categorize_metrics ms) k)"
    unfolding categorize_metrics_def keys_categorize_metrics_with in_bucket_iff
  proof (rule ex1I[of _ ?b])
    show "?b \<in> bucket_name METRIC_SOURCES ` set ms \<and> m \<in> set ms \<and> ?b = ?b"
      using m by simp
  next
    fix k
    assume "k \<in> bucket_name METRIC_SOURCES ` set ms \<and> m \<in> set ms \<and> ?b = k"
    then show "k = ?b" by simp
  qed
qed

theorem categorize_metrics_partition_witness:
  "''foo_bar'' \<in> set [''up'', ''kube_pod_info'', ''cluster:node_cpu:sum_rate5m'', ''foo_bar'', ''up'']
   \<and> (\<exists>!k. k \<in> set (map fst (categorize_metrics
                [''up'', ''kube_pod_info'', ''cluster:node_cpu:sum_rate5m'', ''foo_bar'', ''up'']))
          \<and> ''foo_bar'' \<in> set (bucket (categorize_metrics
                [''up'', ''kube_pod_info'', ''cluster:node_cpu:sum_rate5m'', ''foo_bar'', ''up'']) k))
   \<and> categorize_metrics [''up'', ''kube_pod_info'', ''cluster:node_cpu:sum_rate5m'', ''foo_bar'', ''up'']
       = [(''Prometheus'', [''up'', ''up'']), (''kube-state-metrics'', [''kube_pod_info'']),
          (''Recording Rules'', [''cluster:node_cpu:sum_rate5m'']),
          (''Other/Unknown'', [''foo_bar''])]"
proof -
  let ?ms = "[''up'', ''kube_pod_info'', ''cluster:node_cpu:sum_rate5m'', ''foo_bar'', ''up'']"
  have mem: "''foo_bar'' \<in> set ?ms" by simp
  have ev: "categorize_metrics ?ms
       = [(''Prometheus'', [''up'', ''up'']), (''kube-state-metrics'', [''kube_pod_info'']),
          (''Recording Rules'', [''cluster:node_cpu:sum_rate5m'']),
          (''Other/Unknown'', [''foo_bar''])]"
    by (simp add: categorize_metrics_def categorize_metrics_with_def bucket_name_def
        is_recording_rule_def RECORDING_RULE_PATTERNS_def METRIC_SOURCES_def)
  from categorize_metrics_partition[of ?ms]
  have "\<forall>m \<in> set ?ms. \<exists>!k. k \<in> set (map fst (categorize_metrics ?ms))
                         \<and> m \<in> set (bucket (categorize_metrics ?ms) k)"
    by (rule conjunct2[THEN conjunct2])
  then have "\<exists>!k. k \<in> set (map fst (categorize_metrics ?ms))
                         \<and> ''foo_bar'' \<in> set (bucket (categorize_metrics ?ms) k)"
    using mem by (rule bspec)
  with mem ev show ?thesis by (intro conjI)
qed

text \<open>
  C2. A name in which some entry of \<open>RECORDING_RULE_PATTERNS\<close> occurs and which is none of
  \<open>up\<close>, \<open>scrape_duration_seconds\<close>, \<open>scrape_samples_scraped\<close> is filed under
  \<open>Recording Rules\<close> and under no other key, whatever prefix it starts with.
\<close>

theorem recording_rule_bucket:
  assumes "\<exists>p \<in> set RECORDING_RULE_PATTERNS. str_contains m p"
    and "m \<notin> {''up'', ''scrape_duration_seconds'', ''scrape_samples_scraped''}"
    and "m \<in> set ms"
  shows "m \<in> set (bucket (categorize_metrics ms) ''Recording Rules'')
         \<and> (\<forall>k. m \<in> set (bucket (categorize_metrics ms) k) \<longrightarrow> k = ''Recording Rules'')"
proof -
  have "is_recording_rule m"
    using assms(1) by (simp add: is_recording_rule_def any_pattern_in_iff)
  then have "bucket_name METRIC_SOURCES m = ''Recording Rules''"
    using assms(2) by (simp add: bucket_name_def)
  then show ?thesis
    using assms(3) by (simp add: categorize_metrics_def in_bucket_iff)
qed

theorem recording_rule_bucket_witness:
  "(\<exists>p \<in> set RECORDING_RULE_PATTERNS. str_contains ''node_cpu:rate'' p)
   \<and> ''node_cpu:rate'' \<notin> {''up'', ''scrape_duration_seconds'', ''scrape_samples_scraped''}
   \<and> ''node_cpu:rate'' \<in> set [''node_load1'', ''node_cpu:rate'']
   \<and> startswith ''node_cpu:rate'' ''node_''
   \<and> ''node_cpu:rate'' \<in> set (bucket (categorize_metrics [''node_load1'', ''node_cpu:rate''])
                                  ''Recording Rules'')
   \<and> ''node_cpu:rate'' \<notin> set (bucket (categorize_metrics [''node_load1'', ''node_cpu:rate''])
                                  ''node-exporter'')"
proof -
  have h1: "\<exists>p \<in> set RECORDING_RULE_PATTERNS. str_contains ''node_cpu:rate'' p"
    by (simp add: RECORDING_RULE_PATTERNS_def)
  have h2: "''node_cpu:rate'' \<notin> {''up'', ''scrape_duration_seconds'', ''scrape_samples_scraped''}"
    by simp
  have h3: "''node_cpu:rate'' \<in> set [''node_load1'', ''node_cpu:rate'']" by simp
  have h4: "startswith ''node_cpu:rate'' ''node_''" by simp
  note c = recording_rule_bucket[OF h1 h2 h3]
  from c have c1: "''node_cpu:rate'' \<in> set (bucket (categorize_metrics [''node_load1'', ''node_cpu:rate''])
                                  ''Recording Rules'')" by (rule conjunct1)
  from c have "''node_cpu:rate'' \<in> set (bucket (categorize_metrics [''node_load1'', ''node_cpu:rate''])
                                  ''node-exporter'') \<longrightarrow> ''node-exporter'' = ''Recording Rules''"
    by blast
  then have c2: "''node_cpu:rate'' \<notin> set (bucket (categorize_metrics [''node_load1'', ''node_cpu:rate''])
                                  ''node-exporter'')" by auto
  from h1 h2 h3 h4 c1 c2 show ?thesis by (intro conjI)
qed



text \<open>
  C4. Each of the names \<open>up\<close>, \<open>scrape_duration_seconds\<close>, \<open>scrape_samples_scraped\<close> is
  classified by the prefix scan: the first rule it matches is the \<open>up\<close> or the \<open>scrape_\<close>
  rule, it is filed under \<open>Prometheus\<close>, and never under \<open>Recording Rules\<close>.
\<close>

theorem excluded_names_by_prefix:
  assumes "m \<in> {''up'', ''scrape_duration_seconds'', ''scrape_samples_scraped''}"
    and "m \<in> set ms"
  shows "m \<in> set (bucket (categorize_metrics ms) ''Prometheus'')
         \<and> m \<notin> set (bucket (categorize_metrics ms) ''Recording Rules'')
         \<and> (\<exists>p info. (p, info) \<in> set METRIC_SOURCES \<and> p \<in> {''up'', ''scrape_''}
                \<and> startswith m p \<and> first_prefix METRIC_SOURCES m = Some info
                \<and> name info = ''Prometheus'')"
proof -
  from assms(1) consider "m = ''up''" | "m = ''scrape_duration_seconds''"
    | "m = ''scrape_samples_scraped''" by blast
  then have bn: "bucket_name METRIC_SOURCES m = ''Prometheus''"
    by cases (simp_all add: bucket_name_def METRIC_SOURCES_def)
  have rule: "\<exists>p info. (p, info) \<in> set METRIC_SOURCES \<and> p \<in> {''up'', ''scrape_''}
                \<and> startswith m p \<and> first_prefix METRIC_SOURCES m = Some info
                \<and> name info = ''Prometheus''"
    using assms(1) by (auto simp: METRIC_SOURCES_def)
  have "m \<in> set (bucket (categorize_metrics ms) ''Prometheus'')"
    using bn assms(2) by (simp add: categorize_metrics_def in_bucket_iff)
  moreover have "m \<notin> set (bucket (categorize_metrics ms) ''Recording Rules'')"
    using bn by (simp add: categorize_metrics_def in_bucket_iff)
  ultimately show ?thesis using rule by blast
qed

theorem excluded_names_by_prefix_witness:
  "''scrape_duration_seconds'' \<in> {''up'', ''scrape_duration_seconds'', ''scrape_samples_scraped''}
   \<and> ''scrape_duration_seconds'' \<in> set [''scrape_duration_seconds'', ''a:b'']
   \<and> ''scrape_duration_seconds'' \<in> set (bucket (categorize_metrics [''scrape_duration_seconds'', ''a:b''])
                                  ''Prometheus'')
   \<and> ''scrape_duration_seconds'' \<notin> set (bucket (categorize_metrics [''scrape_duration_seconds'', ''a:b''])
                                  ''Recording Rules'')"
proof -
  have h1: "''scrape_duration_seconds'' \<in> {''up'', ''scrape_duration_seconds'', ''scrape_samples_scraped''}"
    by simp
  have h2: "''scrape_duration_seconds'' \<in> set [''scrape_duration_seconds'', ''a:b'']" by simp
  from excluded_names_by_prefix[OF h1 h2] h1 h2 show ?thesis by blast
qed

text \<open>
  C9. The recording-rule test of \<open>categorize_metrics\<close> (some entry of
  \<open>RECORDING_RULE_PATTERNS\<close> occurs in the name) and the test that the name contains a
  colon are the same function on strings; every entry of the pattern list contains a colon.
\<close>

theorem recording_rule_test_is_colon_test:
  "is_recording_rule = contains_colon \<and> list_all contains_colon RECORDING_RULE_PATTERNS"
proof
  show "is_recording_rule = contains_colon"
    by (rule ext) (simp add: is_recording_rule_iff contains_colon_def)
  show "list_all contains_colon RECORDING_RULE_PATTERNS"
    by (simp add: contains_colon_def RECORDING_RULE_PATTERNS_def)
qed

section \<open>get_job_stats: facts\<close>

lemma dict_update_twice:
  "dict_update (dict_update d k f) k g = dict_update d k (\<lambda>s. g (f s))"
  by (induction d k f rule: dict_update.induct) auto

lemma stat_of_dict_update:
  "stat_of (dict_update d k f) k' = (if k' = k then f (stat_of d k) else stat_of d k')"
  by (induction d k f rule: dict_update.induct) (auto simp: stat_of_def)

lemma keys_dict_update:
  "map fst (dict_update d k f) = (if k \<in> set (map fst d) then map fst d else map fst d @ [k])"
  by (induction d k f rule: dict_update.induct) auto

lemma keyset_dict_update:
  "set (map fst (dict_update d k f)) = insert k (set (map fst d))"
  by (simp add: keys_dict_update insert_absorb)

lemma distinct_dict_update:
  "distinct (map fst d) \<Longrightarrow> distinct (map fst (dict_update d k f))"
  by (simp add: keys_dict_update)

lemma stat_of_member:
  "distinct (map fst d) \<Longrightarrow> (k, s) \<in> set d \<Longrightarrow> stat_of d k = s"
  by (simp add: stat_of_def)

lemma has_required_fieldsE:
  assumes "has_required_fields t"
  obtains ls h u where "map_of t ''labels'' = Some (Labels ls)"
    and "map_of t ''health'' = Some h" and "map_of t ''scrapeUrl'' = Some u"
proof -
  from assms obtain ls where "map_of t ''labels'' = Some (Labels ls)"
    by (auto simp: has_required_fields_def split: option.splits jvalue.splits)
  moreover from assms obtain h where "map_of t ''health'' = Some h"
    by (auto simp: has_required_fields_def)
  moreover from assms obtain u where "map_of t ''scrapeUrl'' = Some u"
    by (auto simp: has_required_fields_def)
  ultimately show ?thesis using that by blast
qed

lemma job_stats_loop_step:
  assumes "has_required_fields t"
  shows "job_stats_loop d (t # ts) = job_stats_loop (dict_update d (job_of t) (account t)) ts"
proof -
  from assms obtain ls h u where l: "map_of t ''labels'' = Some (Labels ls)"
    and h: "map_of t ''health'' = Some h" and u: "map_of t ''scrapeUrl'' = Some u"
    by (rule has_required_fieldsE)
  define jb where "jb = (case map_of ls ''job'' of None \<Rightarrow> ''unknown'' | Some j \<Rightarrow> j)"
  have jb: "job_of t = jb" by (simp add: job_of_def l jb_def)
  have ep: "endpoint_of t = Some \<lparr>url = u, health = h, labels = Labels ls\<rparr>"
    by (simp add: endpoint_of_def l h u)
  show ?thesis
  proof (cases "h = Str ''up''")
    case True
    then have acc: "account t = (\<lambda>s. s\<lparr>count_stat := count_stat s + 1, up := up s + 1,
        endpoints := endpoints s @ [\<lparr>url = u, health = h, labels = Labels ls\<rparr>]\<rparr>)"
      by (intro ext) (simp add: account_def is_up_def h ep)
    show ?thesis
      using True by (simp add: l h u jb acc dict_update_twice flip: jb_def)
  next
    case False
    then have acc: "account t = (\<lambda>s. s\<lparr>count_stat := count_stat s + 1,
        endpoints := endpoints s @ [\<lparr>url = u, health = h, labels = Labels ls\<rparr>]\<rparr>)"
      by (intro ext) (simp add: account_def is_up_def h ep)
    show ?thesis
      using False by (simp add: l h u jb acc dict_update_twice flip: jb_def)
  qed
qed

lemma job_stats_loop_raises:
  assumes "\<not> has_required_fields t"
  shows "\<exists>e. job_stats_loop d (t # ts) = Inl e"
  using assms
  by (auto simp: has_required_fields_def Let_def split: option.splits jvalue.splits)

lemma job_stats_loop_returns:
  assumes "\<forall>t \<in> set ts. has_required_fields t"
  shows "job_stats_loop d ts = Inr (fold (\<lambda>t d. dict_update d (job_of t) (account t)) ts d)"
  using assms
proof (induction ts arbitrary: d)
  case Nil
  show ?case by simp
next
  case (Cons t ts)
  from Cons.prems have t: "has_required_fields t" and rest: "\<forall>t \<in> set ts. has_required_fields t"
    by simp_all
  have "job_stats_loop d (t # ts) = job_stats_loop (dict_update d (job_of t) (account t)) ts"
    using t by (rule job_stats_loop_step)
  also have "\<dots> = Inr (fold (\<lambda>t d. dict_update d (job_of t) (account t)) ts
                        (dict_update d (job_of t) (account t)))"
    using rest by (rule Cons.IH)
  finally show ?case by simp
qed

lemma job_stats_loop_fails:
  assumes "\<not> (\<forall>t \<in> set ts. has_required_fields t)"
  shows "\<exists>e. job_stats_loop d ts = Inl e"
  using assms
proof (induction ts arbitrary: d)
  case Nil
  then show ?case by simp
next
  case (Cons t ts)
  show ?case
  proof (cases "has_required_fields t")
    case True
    with Cons.prems have "\<not> (\<forall>t \<in> set ts. has_required_fields t)" by simp
    then have "\<exists>e. job_stats_loop (dict_update d (job_of t) (account t)) ts = Inl e"
      by (rule Cons.IH)
    then show ?thesis by (simp only: job_stats_loop_step[OF True])
  next
    case False
    then show ?thesis by (rule job_stats_loop_raises)
  qed
qed

lemma job_stats_loop_Inr_iff:
  "(\<exists>js. job_stats_loop d ts = Inr js) \<longleftrightarrow> (\<forall>t \<in> set ts. has_required_fields t)"
proof
  assume "\<exists>js. job_stats_loop d ts = Inr js"
  then show "\<forall>t \<in> set ts. has_required_fields t"
    using job_stats_loop_fails[of ts d] by (cases "\<forall>t \<in> set ts. has_required_fields t") auto
next
  assume "\<forall>t \<in> set ts. has_required_fields t"
  then show "\<exists>js. job_stats_loop d ts = Inr js"
    by (simp add: job_stats_loop_returns)
qed

lemma get_job_stats_Inr:
  assumes "get_job_stats ts = Inr js"
  shows "(\<forall>t \<in> set ts. has_required_fields t)
         \<and> js = fold (\<lambda>t d. dict_update d (job_of t) (account t)) ts []"
proof -
  from assms have "\<exists>js. job_stats_loop [] ts = Inr js" by (auto simp: get_job_stats_def)
  then have wf: "\<forall>t \<in> set ts. has_required_fields t" by (simp only: job_stats_loop_Inr_iff)
  with assms show ?thesis by (simp add: get_job_stats_def job_stats_loop_returns)
qed

lemma stat_of_fold:
  "stat_of (fold (\<lambda>t d. dict_update d (job_of t) (account t)) ts d) k
   = fold account (filter (\<lambda>t. job_of t = k) ts) (stat_of d k)"
  by (induction ts arbitrary: d) (simp_all add: stat_of_dict_update)

lemma keyset_fold:
  "set (map fst (fold (\<lambda>t d. dict_update d (job_of t) (account t)) ts d))
   = set (map fst d) \<union> job_of ` set ts"
proof (induction ts arbitrary: d)
  case Nil
  show ?case by simp
next
  case (Cons t ts)
  have "set (map fst (fold (\<lambda>t d. dict_update d (job_of t) (account t)) (t # ts) d))
        = set (map fst (dict_update d (job_of t) (account t))) \<union> job_of ` set ts"
    using Cons.IH by simp
  also have "\<dots> = set (map fst d) \<union> job_of ` set (t # ts)"
    by (simp only: keyset_dict_update) auto
  finally show ?case .
qed

lemma distinct_fold:
  "distinct (map fst d)
   \<Longrightarrow> distinct (map fst (fold (\<lambda>t d. dict_update d (job_of t) (account t)) ts d))"
  by (induction ts arbitrary: d) (simp_all add: distinct_dict_update)

lemma count_fold_account: "count_stat (fold account ts s) = count_stat s + int (length ts)"
  by (induction ts arbitrary: s) (simp_all add: account_def)

lemma up_fold_account: "up (fold account ts s) = up s + int (length (filter is_up ts))"
  by (induction ts arbitrary: s) (simp_all add: account_def)

lemma endpoints_fold_account:
  "endpoints (fold account ts s)
   = endpoints s @ concat (map (\<lambda>t. case endpoint_of t of None \<Rightarrow> [] | Some e \<Rightarrow> [e]) ts)"
  by (induction ts arbitrary: s) (simp_all add: account_def)

lemma endpoint_of_Some:
  "has_required_fields t \<Longrightarrow> \<exists>e. endpoint_of t = Some e"
  by (erule has_required_fieldsE) (simp add: endpoint_of_def)

lemma map_Some_endpoints:
  assumes "\<forall>t \<in> set ts. has_required_fields t"
  shows "map Some (concat (map (\<lambda>t. case endpoint_of t of None \<Rightarrow> [] | Some e \<Rightarrow> [e]) ts))
         = map endpoint_of ts"
  using assms
proof (induction ts)
  case Nil
  show ?case by simp
next
  case (Cons t ts)
  from Cons.prems obtain e where "endpoint_of t = Some e"
    using endpoint_of_Some by auto
  with Cons show ?case by simp
qed

lemma total_dict_update:
  "sum_list (map (\<lambda>p. count_stat (snd p)) (dict_update d k (account t)))
   = sum_list (map (\<lambda>p. count_stat (snd p)) d) + 1"
  by (induction d k "account t" rule: dict_update.induct)
     (simp_all add: account_def default_stat_def)

lemma total_fold:
  "sum_list (map (\<lambda>p. count_stat (snd p))
       (fold (\<lambda>t d. dict_update d (job_of t) (account t)) ts d))
   = sum_list (map (\<lambda>p. count_stat (snd p)) d) + int (length ts)"
  by (induction ts arbitrary: d) (simp_all add: total_dict_update)

lemma endpoints_dict_update:
  "mset (concat (map (\<lambda>p. endpoints (snd p)) (dict_update d k (account t))))
   = mset (concat (map (\<lambda>p. endpoints (snd p)) d))
     + mset (case endpoint_of t of None \<Rightarrow> [] | Some e \<Rightarrow> [e])"
  by (induction d k "account t" rule: dict_update.induct)
     (simp_all add: account_def default_stat_def)

lemma endpoints_fold:
  "mset (concat (map (\<lambda>p. endpoints (snd p))
       (fold (\<lambda>t d. dict_update d (job_of t) (account t)) ts d)))
   = mset (concat (map (\<lambda>p. endpoints (snd p)) d))
     + mset (concat (map (\<lambda>t. case endpoint_of t of None \<Rightarrow> [] | Some e \<Rightarrow> [e]) ts))"
  by (induction ts arbitrary: d) (simp_all add: endpoints_dict_update)

lemma map_of_stat_of:
  "map_of d k = (if k \<in> set (map fst d) then Some (stat_of d k) else None)"
proof (cases "map_of d k")
  case None
  then show ?thesis by (simp add: map_of_eq_None_iff)
next
  case (Some s)
  then have "k \<in> set (map fst d)" by (metis map_of_eq_None_iff option.distinct(1) set_map)
  with Some show ?thesis by (simp add: stat_of_def)
qed

lemma stat_of_result:
  assumes "get_job_stats ts = Inr js"
  shows "stat_of js k = fold account (filter (\<lambda>t. job_of t = k) ts) default_stat"
proof -
  from get_job_stats_Inr[OF assms]
  have "js = fold (\<lambda>t d. dict_update d (job_of t) (account t)) ts []" by simp
  then show ?thesis by (simp add: stat_of_fold) (simp add: stat_of_def)
qed

lemma keys_result:
  assumes "get_job_stats ts = Inr js"
  shows "set (map fst js) = job_of ` set ts" and "distinct (map fst js)"
proof -
  from get_job_stats_Inr[OF assms]
  have js: "js = fold (\<lambda>t d. dict_update d (job_of t) (account t)) ts []" by simp
  show "set (map fst js) = job_of ` set ts"
    unfolding js keyset_fold by simp
  show "distinct (map fst js)"
    unfolding js by (rule distinct_fold) simp
qed

lemma count_result:
  assumes "get_job_stats ts = Inr js"
  shows "count_stat (stat_of js k) = int (size (filter_mset (\<lambda>t. job_of t = k) (mset ts)))"
    and "up (stat_of js k)
         = int (size (filter_mset is_up (filter_mset (\<lambda>t. job_of t = k) (mset ts))))"
proof -
  show "count_stat (stat_of js k) = int (size (filter_mset (\<lambda>t. job_of t = k) (mset ts)))"
    unfolding stat_of_result[OF assms] count_fold_account
    by (simp add: default_stat_def flip: mset_filter)
  show "up (stat_of js k)
         = int (size (filter_mset is_up (filter_mset (\<lambda>t. job_of t = k) (mset ts))))"
    unfolding stat_of_result[OF assms] up_fold_account
    by (simp add: default_stat_def flip: mset_filter)
qed

section \<open>Properties of get_job_stats\<close>

text \<open>
  C5. Whenever \<open>get_job_stats\<close> returns, every job of the result has a healthy-target
  count \<open>up\<close> that is at most its target count \<open>count\<close>.
\<close>

theorem up_le_count:
  assumes "get_job_stats ts = Inr js" and "(k, s) \<in> set js"
  shows "up s \<le> count_stat s"
proof -
  have "stat_of js k = s"
    using keys_result(2)[OF assms(1)] assms(2) by (rule stat_of_member)
  then have s: "s = fold account (filter (\<lambda>t. job_of t = k) ts) default_stat"
    using stat_of_result[OF assms(1), of k] by simp
  have "length (filter is_up (filter (\<lambda>t. job_of t = k) ts))
        \<le> length (filter (\<lambda>t. job_of t = k) ts)"
    by (rule length_filter_le)
  then show ?thesis
    unfolding s count_fold_account up_fold_account by (simp add: default_stat_def)
qed

theorem up_le_count_witness:
  "get_job_stats
     [[(''labels'', Labels [(''job'', ''node-exporter'')]), (''health'', Str ''up''),
       (''scrapeUrl'', Str ''http://a:9100/metrics'')],
      [(''labels'', Labels [(''job'', ''node-exporter'')]), (''health'', Str ''down''),
       (''scrapeUrl'', Str ''http://b:9100/metrics'')]]
   = Inr [(''node-exporter'',
           \<lparr>count_stat = 2, up = 1,
            endpoints =
              [\<lparr>url = Str ''http://a:9100/metrics'', health = Str ''up'',
                labels = Labels [(''job'', ''node-exporter'')]\<rparr>,
               \<lparr>url = Str ''http://b:9100/metrics'', health = Str ''down'',
                labels = Labels [(''job'', ''node-exporter'')]\<rparr>]\<rparr>)]
   \<and> up \<lparr>count_stat = 2, up = 1,
            endpoints =
              [\<lparr>url = Str ''http://a:9100/metrics'', health = Str ''up'',
                labels = Labels [(''job'', ''node-exporter'')]\<rparr>,
               \<lparr>url = Str ''http://b:9100/metrics'', health = Str ''down'',
                labels = Labels [(''job'', ''node-exporter'')]\<rparr>]\<rparr>
       \<le> count_stat \<lparr>count_stat = 2, up = 1,
            endpoints =
              [\<lparr>url = Str ''http://a:9100/metrics'', health = Str ''up'',
                labels = Labels [(''job'', ''node-exporter'')]\<rparr>,
               \<lparr>url = Str ''http://b:9100/metrics'', health = Str ''down'',
                labels = Labels [(''job'', ''node-exporter'')]\<rparr>]\<rparr>"
proof -
  let ?ts = "[[(''labels'', Labels [(''job'', ''node-exporter'')]), (''health'', Str ''up''),
       (''scrapeUrl'', Str ''http://a:9100/metrics'')],
      [(''labels'', Labels [(''job'', ''node-exporter'')]), (''health'', Str ''down''),
       (''scrapeUrl'', Str ''http://b:9100/metrics'')]]"
  let ?s = "\<lparr>count_stat = 2, up = 1,
            endpoints =
              [\<lparr>url = Str ''http://a:9100/metrics'', health = Str ''up'',
                labels = Labels [(''job'', ''node-exporter'')]\<rparr>,
               \<lparr>url = Str ''http://b:9100/metrics'', health = Str ''down'',
                labels = Labels [(''job'', ''node-exporter'')]\<rparr>]\<rparr>"
  have ev: "get_job_stats ?ts = Inr [(''node-exporter'', ?s)]"
    by (simp add: get_job_stats_def Let_def default_stat_def)
  have mem: "(''node-exporter'', ?s) \<in> set [(''node-exporter'', ?s)]" by simp
  from ev up_le_count[OF ev mem] show ?thesis by (intro conjI)
qed

text \<open>
  C6. Reordering the target list does not change the outcome: if \<open>get_job_stats\<close> returns
  on a list, it returns on every permutation of it, with the same set of job keys and, for
  each job, the same target count and the same healthy-target count.
\<close>

theorem get_job_stats_permutation:
  assumes "mset ts' = mset ts" and "get_job_stats ts = Inr js"
  shows "\<exists>js'. get_job_stats ts' = Inr js'
           \<and> set (map fst js') = set (map fst js)
           \<and> (\<forall>k. map_option count_stat (map_of js' k) = map_option count_stat (map_of js k)
                  \<and> map_option up (map_of js' k) = map_option up (map_of js k))"
proof -
  have sets: "set ts' = set ts" using assms(1) by (rule mset_eq_setD)
  from get_job_stats_Inr[OF assms(2)] have "\<forall>t \<in> set ts. has_required_fields t" by simp
  then have "\<forall>t \<in> set ts'. has_required_fields t" using sets by simp
  then obtain js' where js': "get_job_stats ts' = Inr js'"
    by (auto simp: get_job_stats_def job_stats_loop_returns)
  have keys: "set (map fst js') = set (map fst js)"
    unfolding keys_result(1)[OF js'] keys_result(1)[OF assms(2)] sets ..
  have c: "count_stat (stat_of js' k) = count_stat (stat_of js k)" for k
    unfolding count_result[OF js'] count_result[OF assms(2)] assms(1) ..
  have u: "up (stat_of js' k) = up (stat_of js k)" for k
    unfolding count_result[OF js'] count_result[OF assms(2)] assms(1) ..
  have "map_option count_stat (map_of js' k) = map_option count_stat (map_of js k)
        \<and> map_option up (map_of js' k) = map_option up (map_of js k)" for k
    unfolding map_of_stat_of[of js'] map_of_stat_of[of js] keys
    by (simp add: c u)
  with js' keys show ?thesis by blast
qed

theorem get_job_stats_permutation_witness:
  "mset [[(''labels'', Labels []), (''health'', Str ''up''), (''scrapeUrl'', Str ''c'')],
         [(''labels'', Labels [(''job'', ''kubelet'')]), (''health'', Str ''down''),
          (''scrapeUrl'', Str ''b'')],
         [(''labels'', Labels [(''job'', ''kubelet'')]), (''health'', Str ''up''),
          (''scrapeUrl'', Str ''a'')]]
   = mset [[(''labels'', Labels [(''job'', ''kubelet'')]), (''health'', Str ''up''),
          (''scrapeUrl'', Str ''a'')],
         [(''labels'', Labels [(''job'', ''kubelet'')]), (''health'', Str ''down''),
          (''scrapeUrl'', Str ''b'')],
         [(''labels'', Labels []), (''health'', Str ''up''), (''scrapeUrl'', Str ''c'')]]
   \<and> (\<exists>js'. get_job_stats
          [[(''labels'', Labels []), (''health'', Str ''up''), (''scrapeUrl'', Str ''c'')],
           [(''labels'', Labels [(''job'', ''kubelet'')]), (''health'', Str ''down''),
            (''scrapeUrl'', Str ''b'')],
           [(''labels'', Labels [(''job'', ''kubelet'')]), (''health'', Str ''up''),
            (''scrapeUrl'', Str ''a'')]] = Inr js'
        \<and> set (map fst js') = {''kubelet'', ''unknown''}
        \<and> map_option count_stat (map_of js' ''kubelet'') = Some 2
        \<and> map_option up (map_of js' ''kubelet'') = Some 1)"
proof -
  let ?a = "[(''labels'', Labels [(''job'', ''kubelet'')]), (''health'', Str ''up''),
          (''scrapeUrl'', Str ''a'')] :: target"
  let ?b = "[(''labels'', Labels [(''job'', ''kubelet'')]), (''health'', Str ''down''),
          (''scrapeUrl'', Str ''b'')] :: target"
  let ?c = "[(''labels'', Labels []), (''health'', Str ''up''), (''scrapeUrl'', Str ''c'')] :: target"
  let ?js = "[(''kubelet'', \<lparr>count_stat = 2, up = 1,
                 endpoints = [\<lparr>url = Str ''a'', health = Str ''up'',
                                labels = Labels [(''job'', ''kubelet'')]\<rparr>,
                              \<lparr>url = Str ''b'', health = Str ''down'',
                                labels = Labels [(''job'', ''kubelet'')]\<rparr>]\<rparr>),
              (''unknown'', \<lparr>count_stat = 1, up = 1,
                 endpoints = [\<lparr>url = Str ''c'', health = Str ''up'', labels = Labels []\<rparr>]\<rparr>)]"
  have h1: "mset [?c, ?b, ?a] = mset [?a, ?b, ?c]" by simp
  have h2: "get_job_stats [?a, ?b, ?c] = Inr ?js"
    by (simp add: get_job_stats_def Let_def default_stat_def)
  from get_job_stats_permutation[OF h1 h2] obtain js' where
    r: "get_job_stats [?c, ?b, ?a] = Inr js'" and k: "set (map fst js') = set (map fst ?js)"
    and c: "map_option count_stat (map_of js' ''kubelet'') = map_option count_stat (map_of ?js ''kubelet'')"
    and u: "map_option up (map_of js' ''kubelet'') = map_option up (map_of ?js ''kubelet'')"
    by blast
  from k have k': "set (map fst js') = {''kubelet'', ''unknown''}" by simp
  from c have c': "map_option count_stat (map_of js' ''kubelet'') = Some 2" by simp
  from u have u': "map_option up (map_of js' ''kubelet'') = Some 1" by simp
  from r k' c' u' have "\<exists>js'. get_job_stats [?c, ?b, ?a] = Inr js'
        \<and> set (map fst js') = {''kubelet'', ''unknown''}
        \<and> map_option count_stat (map_of js' ''kubelet'') = Some 2
        \<and> map_option up (map_of js' ''kubelet'') = Some 1" by blast
  with h1 show ?thesis by (intro conjI)
qed

text \<open>
  C7. No target is dropped or duplicated: the target counts of all jobs add up to the
  length of the input, the job keys are distinct, the endpoint records of all jobs together
  are exactly the records of the input targets, every target's job is a key, and the
  endpoints list of a job holds the records of the targets of that job, in input order, as
  many as its target count.
\<close>

theorem get_job_stats_no_loss:
  assumes "get_job_stats ts = Inr js"
  shows "sum_list (map (\<lambda>p. count_stat (snd p)) js) = int (length ts)
         \<and> distinct (map fst js)
         \<and> mset (map Some (concat (map (\<lambda>p. endpoints (snd p)) js))) = mset (map endpoint_of ts)
         \<and> (\<forall>t \<in> set ts. job_of t \<in> set (map fst js))
         \<and> (\<forall>(k, s) \<in> set js.
               map Some (endpoints s) = map endpoint_of (filter (\<lambda>t. job_of t = k) ts)
               \<and> count_stat s = int (length (endpoints s)))"
proof (intro conjI)
  from get_job_stats_Inr[OF assms]
  have wf: "\<forall>t \<in> set ts. has_required_fields t"
    and js: "js = fold (\<lambda>t d. dict_update d (job_of t) (account t)) ts []" by simp_all
  show "sum_list (map (\<lambda>p. count_stat (snd p)) js) = int (length ts)"
    unfolding js total_fold by simp
  show "distinct (map fst js)" by (rule keys_result(2)[OF assms])
  have "mset (concat (map (\<lambda>p. endpoints (snd p)) js))
        = mset (concat (map (\<lambda>t. case endpoint_of t of None \<Rightarrow> [] | Some e \<Rightarrow> [e]) ts))"
    unfolding js endpoints_fold by simp
  then have "mset (map Some (concat (map (\<lambda>p. endpoints (snd p)) js)))
        = mset (map Some (concat (map (\<lambda>t. case endpoint_of t of None \<Rightarrow> [] | Some e \<Rightarrow> [e]) ts)))"
    by (simp only: mset_map)
  then show "mset (map Some (concat (map (\<lambda>p. endpoints (snd p)) js))) = mset (map endpoint_of ts)"
    by (simp only: map_Some_endpoints[OF wf])
  show "\<forall>t \<in> set ts. job_of t \<in> set (map fst js)"
    unfolding keys_result(1)[OF assms] by simp
  show "\<forall>(k, s) \<in> set js.
               map Some (endpoints s) = map endpoint_of (filter (\<lambda>t. job_of t = k) ts)
               \<and> count_stat s = int (length (endpoints s))"
  proof (intro ballI, clarify)
    fix k s assume ks: "(k, s) \<in> set js"
    let ?f = "filter (\<lambda>t. job_of t = k) ts"
    have "stat_of js k = s"
      using keys_result(2)[OF assms] ks by (rule stat_of_member)
    then have s: "s = fold account ?f default_stat"
      using stat_of_result[OF assms, of k] by simp
    have wf': "\<forall>t \<in> set ?f. has_required_fields t" using wf by simp
    have e: "map Some (endpoints s) = map endpoint_of ?f"
      unfolding s endpoints_fold_account
      using map_Some_endpoints[OF wf'] by (simp add: default_stat_def)
    have "length (endpoints s) = length (map Some (endpoints s))" by simp
    also have "\<dots> = length ?f" unfolding e by simp
    finally have "count_stat s = int (length (endpoints s))"
      unfolding s count_fold_account by (simp add: default_stat_def)
    with e show "map Some (endpoints s) = map endpoint_of ?f
                 \<and> count_stat s = int (length (endpoints s))" by simp
  qed
qed

theorem get_job_stats_no_loss_witness:
  "get_job_stats
     [[(''labels'', Labels [(''job'', ''grafana'')]), (''health'', Str ''up''),
       (''scrapeUrl'', Str ''g'')],
      [(''labels'', Labels [(''instance'', ''x'')]), (''health'', Str ''unknown''),
       (''scrapeUrl'', Str ''x'')],
      [(''labels'', Labels [(''job'', ''grafana'')]), (''health'', Str ''up''),
       (''scrapeUrl'', Str ''g'')]]
   = Inr [(''grafana'', \<lparr>count_stat = 2, up = 2,
              endpoints = [\<lparr>url = Str ''g'', health = Str ''up'',
                             labels = Labels [(''job'', ''grafana'')]\<rparr>,
                           \<lparr>url = Str ''g'', health = Str ''up'',
                             labels = Labels [(''job'', ''grafana'')]\<rparr>]\<rparr>),
          (''unknown'', \<lparr>count_stat = 1, up = 0,
              endpoints = [\<lparr>url = Str ''x'', health = Str ''unknown'',
                             labels = Labels [(''instance'', ''x'')]\<rparr>]\<rparr>)]
   \<and> sum_list (map (\<lambda>p. count_stat (snd p))
        [(''grafana'', \<lparr>count_stat = 2, up = 2,
              endpoints = [\<lparr>url = Str ''g'', health = Str ''up'',
                             labels = Labels [(''job'', ''grafana'')]\<rparr>,
                           \<lparr>url = Str ''g'', health = Str ''up'',
                             labels = Labels [(''job'', ''grafana'')]\<rparr>]\<rparr>),
          (''unknown'', \<lparr>count_stat = 1, up = 0,
              endpoints = [\<lparr>url = Str ''x'', health = Str ''unknown'',
                             labels = Labels [(''instance'', ''x'')]\<rparr>]\<rparr>)]) = 3"
proof -
  let ?ts = "[[(''labels'', Labels [(''job'', ''grafana'')]), (''health'', Str ''up''),
       (''scrapeUrl'', Str ''g'')],
      [(''labels'', Labels [(''instance'', ''x'')]), (''health'', Str ''unknown''),
       (''scrapeUrl'', Str ''x'')],
      [(''labels'', Labels [(''job'', ''grafana'')]), (''health'', Str ''up''),
       (''scrapeUrl'', Str ''g'')]]"
  let ?js = "[(''grafana'', \<lparr>count_stat = 2, up = 2,
              endpoints = [\<lparr>url = Str ''g'', health = Str ''up'',
                             labels = Labels [(''job'', ''grafana'')]\<rparr>,
                           \<lparr>url = Str ''g'', health = Str ''up'',
                             labels = Labels [(''job'', ''grafana'')]\<rparr>]\<rparr>),
          (''unknown'', \<lparr>count_stat = 1, up = 0,
              endpoints = [\<lparr>url = Str ''x'', health = Str ''unknown'',
                             labels = Labels [(''instance'', ''x'')]\<rparr>]\<rparr>)]"
  have ev: "get_job_stats ?ts = Inr ?js"
    by (simp add: get_job_stats_def Let_def default_stat_def)
  from get_job_stats_no_loss[OF ev]
  have "sum_list (map (\<lambda>p. count_stat (snd p)) ?js) = int (length ?ts)" by (rule conjunct1)
  then have "sum_list (map (\<lambda>p. count_stat (snd p)) ?js) = 3" by simp
  with ev show ?thesis by (intro conjI)
qed

text \<open>
  C10. \<open>get_job_stats\<close> returns exactly when every target has a \<^verbatim>\<open>labels\<close> label set, a
  \<^verbatim>\<open>health\<close> field and a \<^verbatim>\<open>scrapeUrl\<close> field; then no \<^verbatim>\<open>KeyError\<close> is raised, and a
  target whose label set has no \<^verbatim>\<open>job\<close> is counted under \<open>unknown\<close>.
\<close>

theorem get_job_stats_total_iff:
  "((\<exists>js. get_job_stats ts = Inr js) \<longleftrightarrow> (\<forall>t \<in> set ts. has_required_fields t))
   \<and> ((\<forall>t \<in> set ts. has_required_fields t) \<longrightarrow> (\<forall>k. get_job_stats ts \<noteq> Inl (KeyError k)))
   \<and> (\<forall>js. get_job_stats ts = Inr js \<longrightarrow>
         (\<forall>t \<in> set ts. \<forall>ls. map_of t ''labels'' = Some (Labels ls) \<longrightarrow> map_of ls ''job'' = None
                \<longrightarrow> ''unknown'' \<in> set (map fst js)))"
proof (intro conjI)
  show iff: "(\<exists>js. get_job_stats ts = Inr js) \<longleftrightarrow> (\<forall>t \<in> set ts. has_required_fields t)"
    unfolding get_job_stats_def by (rule job_stats_loop_Inr_iff)
  show "(\<forall>t \<in> set ts. has_required_fields t) \<longrightarrow> (\<forall>k. get_job_stats ts \<noteq> Inl (KeyError k))"
    using iff by auto
  show "\<forall>js. get_job_stats ts = Inr js \<longrightarrow>
         (\<forall>t \<in> set ts. \<forall>ls. map_of t ''labels'' = Some (Labels ls) \<longrightarrow> map_of ls ''job'' = None
                \<longrightarrow> ''unknown'' \<in> set (map fst js))"
  proof (intro allI impI ballI)
    fix js t ls
    assume r: "get_job_stats ts = Inr js" and t: "t \<in> set ts"
      and l: "map_of t ''labels'' = Some (Labels ls)" and j: "map_of ls ''job'' = None"
    have "job_of t = ''unknown''" by (simp add: job_of_def l j)
    then show "''unknown'' \<in> set (map fst js)"
      unfolding keys_result(1)[OF r] using t by force
  qed
qed

theorem get_job_stats_total_iff_witness:
  "has_required_fields [(''labels'', Labels [(''instance'', ''x'')]), (''health'', Str ''up''),
                  (''scrapeUrl'', Str ''x'')]
   \<and> (\<exists>js. get_job_stats [[(''labels'', Labels [(''instance'', ''x'')]), (''health'', Str ''up''),
                  (''scrapeUrl'', Str ''x'')]] = Inr js \<and> ''unknown'' \<in> set (map fst js))
   \<and> \<not> has_required_fields [(''labels'', Labels [(''job'', ''x'')]), (''scrapeUrl'', Str ''x'')]
   \<and> get_job_stats [[(''labels'', Labels [(''job'', ''x'')]), (''scrapeUrl'', Str ''x'')]]
       = Inl (KeyError ''health'')"
proof -
  let ?t = "[(''labels'', Labels [(''instance'', ''x'')]), (''health'', Str ''up''),
                  (''scrapeUrl'', Str ''x'')] :: target"
  let ?bad = "[(''labels'', Labels [(''job'', ''x'')]), (''scrapeUrl'', Str ''x'')] :: target"
  have h: "\<forall>t \<in> set [?t]. has_required_fields t"
    by (simp add: has_required_fields_def)
  have l: "map_of ?t ''labels'' = Some (Labels [(''instance'', ''x'')])" by simp
  have j: "map_of [(''instance'', ''x'')] ''job'' = None" by simp
  note inst = get_job_stats_total_iff[of "[?t]"]
  from inst h obtain js where r: "get_job_stats [?t] = Inr js" by blast
  from inst r l j have "''unknown'' \<in> set (map fst js)" by (metis list.set_intros(1))
  with r have ok: "\<exists>js. get_job_stats [?t] = Inr js \<and> ''unknown'' \<in> set (map fst js)" by blast
  have h': "has_required_fields ?t"
    by (simp add: has_required_fields_def)
  have nb: "\<not> has_required_fields ?bad"
    by (simp add: has_required_fields_def)
  have eb: "get_job_stats [?bad] = Inl (KeyError ''health'')"
    by (simp add: get_job_stats_def Let_def)
  from h' ok nb eb show ?thesis by (intro conjI)
qed

section \<open>The queries and main: facts\<close>

lemma get_all_metrics_cases:
  "get_all_metrics r io =
     (case try_get r of
        Inl e \<Rightarrow> (SystemExit 1, io\<lparr>stderr := stderr io @ [ErrorQuerying e]\<rparr>)
      | Inr d \<Rightarrow>
          if status d \<noteq> ''success''
          then (SystemExit 1, io\<lparr>stderr := stderr io @ [FailedMetrics]\<rparr>)
          else (case data d of
                  None \<Rightarrow> (Raised (KeyError ''data''), io)
                | Some names \<Rightarrow> (Return (sort names), io)))"
  by (simp add: get_all_metrics_def query_prometheus_def bind_prog_def return_prog_def
      print_err_def sys_exit_def raise_error_def split: sum.splits option.splits)

lemma get_targets_cases:
  "get_targets r io =
     (case try_get r of
        Inl e \<Rightarrow> (SystemExit 1, io\<lparr>stderr := stderr io @ [ErrorQuerying e]\<rparr>)
      | Inr d \<Rightarrow>
          if status d \<noteq> ''success''
          then (SystemExit 1, io\<lparr>stderr := stderr io @ [FailedTargets]\<rparr>)
          else (case data d of
                  None \<Rightarrow> (Raised (KeyError ''data''), io)
                | Some ts \<Rightarrow> (Return ts, io)))"
  by (simp add: get_targets_def query_prometheus_def bind_prog_def return_prog_def
      print_err_def sys_exit_def raise_error_def split: sum.splits option.splits)

lemma query_fails_try_get:
  assumes "query_fails is_4xx_5xx r"
  shows "(\<exists>e. try_get r = Inl e) \<or> (\<exists>d. try_get r = Inr d \<and> status d \<noteq> ''success'')"
  using assms
  by (cases r)
     (auto simp: query_fails_def is_4xx_5xx_def try_get_def raise_for_status_def
           split: option.splits)

lemma failed_get_all_metrics:
  assumes "query_fails is_4xx_5xx r"
  shows "\<exists>e. get_all_metrics r io = (SystemExit 1, io\<lparr>stderr := stderr io @ [e]\<rparr>)"
  using query_fails_try_get[OF assms] by (auto simp: get_all_metrics_cases)

lemma failed_get_targets:
  assumes "query_fails is_4xx_5xx r"
  shows "\<exists>e. get_targets r io = (SystemExit 1, io\<lparr>stderr := stderr io @ [e]\<rparr>)"
  using query_fails_try_get[OF assms] by (auto simp: get_targets_cases)

lemma get_all_metrics_outcomes:
  "(\<exists>e. get_all_metrics r io = (SystemExit 1, io\<lparr>stderr := stderr io @ [e]\<rparr>))
   \<or> (\<exists>e. get_all_metrics r io = (Raised e, io))
   \<or> (\<exists>ms. get_all_metrics r io = (Return ms, io))"
proof (cases "try_get r")
  case (Inl e)
  then have "get_all_metrics r io = (SystemExit 1, io\<lparr>stderr := stderr io @ [ErrorQuerying e]\<rparr>)"
    by (simp add: get_all_metrics_cases)
  then show ?thesis by blast
next
  case (Inr d)
  show ?thesis
  proof (cases "status d = ''success''")
    case False
    with Inr have "get_all_metrics r io = (SystemExit 1, io\<lparr>stderr := stderr io @ [FailedMetrics]\<rparr>)"
      by (simp add: get_all_metrics_cases)
    then show ?thesis by blast
  next
    case True
    with Inr show ?thesis
      by (cases "data d") (simp_all add: get_all_metrics_cases)
  qed
qed

lemma main_first_query_exits:
  assumes "get_all_metrics r1 \<lparr>stdout = (if json a then [] else [Querying]), stderr = []\<rparr>
           = (SystemExit n, io)"
  shows "run_main a r1 r2 = (n, io)"
  using assms
  by (cases "json a")
     (simp_all add: run_main_def main_def bind_prog_def print_out_def return_prog_def)

lemma main_first_query_raises:
  assumes "get_all_metrics r1 \<lparr>stdout = (if json a then [] else [Querying]), stderr = []\<rparr>
           = (Raised e, io)"
  shows "run_main a r1 r2 = (1, io\<lparr>stderr := stderr io @ [Traceback e]\<rparr>)"
  using assms
  by (cases "json a")
     (simp_all add: run_main_def main_def bind_prog_def print_out_def return_prog_def)

lemma main_second_query_exits:
  assumes "get_all_metrics r1 \<lparr>stdout = (if json a then [] else [Querying]), stderr = []\<rparr>
           = (Return ms, io)"
    and "get_targets r2 io = (SystemExit n, io')"
  shows "run_main a r1 r2 = (n, io')"
  using assms
  by (cases "json a")
     (simp_all add: run_main_def main_def bind_prog_def print_out_def return_prog_def)

section \<open>Properties of main\<close>

text \<open>
  C8. Whenever one of the two queries fails (no connection, a timeout, a 4xx or 5xx status
  code such as 500, or an envelope whose status is not \<^verbatim>\<open>success\<close>), the process ends with
  exit code 1, has written a message to standard error, and has written no report to
  standard output: standard output is empty in JSON mode and holds only the progress line
  in text mode.
\<close>

theorem upstream_failure_exits_1:
  assumes "query_fails is_4xx_5xx r1 \<or> query_fails is_4xx_5xx r2"
  shows "fst (run_main a r1 r2) = 1
         \<and> stderr (snd (run_main a r1 r2)) \<noteq> []
         \<and> (\<forall>x \<in> set (stdout (snd (run_main a r1 r2))). \<not> is_report x)
         \<and> stdout (snd (run_main a r1 r2)) = (if json a then [] else [Querying])"
proof -
  let ?io = "\<lparr>stdout = (if json a then [] else [Querying]), stderr = []\<rparr>"
  have goal: "fst res = 1 \<and> stderr (snd res) \<noteq> []
         \<and> (\<forall>x \<in> set (stdout (snd res)). \<not> is_report x)
         \<and> stdout (snd res) = (if json a then [] else [Querying])"
    if "res = (1, ?io\<lparr>stderr := stderr ?io @ [e]\<rparr>)" for res e
    using that by simp
  consider (exits) e where "get_all_metrics r1 ?io = (SystemExit 1, ?io\<lparr>stderr := stderr ?io @ [e]\<rparr>)"
    | (raises) e where "get_all_metrics r1 ?io = (Raised e, ?io)"
    | (returns) ms where "get_all_metrics r1 ?io = (Return ms, ?io)"
    using get_all_metrics_outcomes[of r1 ?io] by blast
  then show ?thesis
  proof cases
    case exits
    then have "run_main a r1 r2 = (1, ?io\<lparr>stderr := stderr ?io @ [e]\<rparr>)"
      by (rule main_first_query_exits)
    then show ?thesis by (rule goal)
  next
    case raises
    then have "run_main a r1 r2 = (1, ?io\<lparr>stderr := stderr ?io @ [Traceback e]\<rparr>)"
      by (rule main_first_query_raises)
    then show ?thesis by (rule goal)
  next
    case returns
    have "\<not> query_fails is_4xx_5xx r1"
    proof
      assume "query_fails is_4xx_5xx r1"
      then obtain e where "get_all_metrics r1 ?io = (SystemExit 1, ?io\<lparr>stderr := stderr ?io @ [e]\<rparr>)"
        using failed_get_all_metrics by blast
      with returns show False by simp
    qed
    with assms have "query_fails is_4xx_5xx r2" by simp
    then obtain e where "get_targets r2 ?io = (SystemExit 1, ?io\<lparr>stderr := stderr ?io @ [e]\<rparr>)"
      using failed_get_targets by blast
    with returns have "run_main a r1 r2 = (1, ?io\<lparr>stderr := stderr ?io @ [e]\<rparr>)"
      by (rule main_second_query_exits)
    then show ?thesis by (rule goal)
  qed
qed

theorem upstream_failure_exits_1_witness:
  "query_fails is_4xx_5xx (Response 500 None :: string list http_result)
   \<and> run_main \<lparr>json = True, show_all = False\<rparr> (Response 500 None)
        (Response 200 (Some \<lparr>status = ''success'', data = Some []\<rparr>))
      = (1, \<lparr>stdout = [], stderr = [ErrorQuerying (HTTPError 500)]\<rparr>)
   \<and> query_fails is_4xx_5xx
        (Response 200 (Some \<lparr>status = ''error'', data = None :: target list option\<rparr>))
   \<and> fst (run_main \<lparr>json = False, show_all = True\<rparr>
        (Response 200 (Some \<lparr>status = ''success'', data = Some [''up'']\<rparr>))
        (Response 200 (Some \<lparr>status = ''error'', data = None\<rparr>))) = 1
   \<and> stdout (snd (run_main \<lparr>json = False, show_all = True\<rparr>
        (Response 200 (Some \<lparr>status = ''success'', data = Some [''up'']\<rparr>))
        (Response 200 (Some \<lparr>status = ''error'', data = None\<rparr>)))) = [Querying]"
proof -
  let ?r500 = "Response 500 None :: string list http_result"
  let ?ok2 = "Response 200 (Some \<lparr>status = ''success'', data = Some []\<rparr>) :: target list http_result"
  let ?ok1 = "Response 200 (Some \<lparr>status = ''success'', data = Some [''up'']\<rparr>)"
  let ?err2 = "Response 200 (Some \<lparr>status = ''error'', data = None :: target list option\<rparr>)"
  have h1: "query_fails is_4xx_5xx ?r500"
    by (simp add: query_fails_def is_4xx_5xx_def)
  have h2: "query_fails is_4xx_5xx ?err2"
    by (simp add: query_fails_def)
  have e1: "run_main \<lparr>json = True, show_all = False\<rparr> ?r500 ?ok2
      = (1, \<lparr>stdout = [], stderr = [ErrorQuerying (HTTPError 500)]\<rparr>)"
    by (simp add: run_main_def main_def bind_prog_def return_prog_def print_out_def print_err_def
      sys_exit_def get_all_metrics_def query_prometheus_def try_get_def raise_for_status_def)
  from h2 have "query_fails is_4xx_5xx ?ok1 \<or> query_fails is_4xx_5xx ?err2" by (rule disjI2)
  from upstream_failure_exits_1[OF this, of "\<lparr>json = False, show_all = True\<rparr>"]
  have c1: "fst (run_main \<lparr>json = False, show_all = True\<rparr> ?ok1 ?err2) = 1"
    and c2: "stdout (snd (run_main \<lparr>json = False, show_all = True\<rparr> ?ok1 ?err2)) = [Querying]"
    by simp_all
  from h1 e1 h2 c1 c2 show ?thesis by (intro conjI)
qed

text \<open>
  The same statement for every status code outside 200..299 does not hold:
  \<^verbatim>\<open>raise_for_status\<close> lets a 300 response pass, and when its body is a \<^verbatim>\<open>success\<close>
  envelope the report is printed and the exit code is 0.
\<close>

theorem non_2xx_status_counterexample:
  "query_fails non_2xx (Response 300 (Some \<lparr>status = ''success'', data = Some [''up'']\<rparr>))
   \<and> run_main \<lparr>json = True, show_all = False\<rparr>
        (Response 300 (Some \<lparr>status = ''success'', data = Some [''up'']\<rparr>))
        (Response 200 (Some \<lparr>status = ''success'', data = Some []\<rparr>))
      = (0, \<lparr>stdout = [JsonReport [(''Prometheus'', [''up''])] []], stderr = []\<rparr>)"
proof
  show "query_fails non_2xx (Response 300 (Some \<lparr>status = ''success'', data = Some [''up'']\<rparr>))"
    by (simp add: query_fails_def non_2xx_def)
  show "run_main \<lparr>json = True, show_all = False\<rparr>
        (Response 300 (Some \<lparr>status = ''success'', data = Some [''up'']\<rparr>))
        (Response 200 (Some \<lparr>status = ''success'', data = Some []\<rparr>))
      = (0, \<lparr>stdout = [JsonReport [(''Prometheus'', [''up''])] []], stderr = []\<rparr>)"
    by (simp add: run_main_def main_def bind_prog_def return_prog_def print_out_def
      get_all_metrics_def get_targets_def query_prometheus_def try_get_def raise_for_status_def
      get_job_stats_def categorize_metrics_def categorize_metrics_with_def bucket_name_def
      is_recording_rule_def RECORDING_RULE_PATTERNS_def METRIC_SOURCES_def)
qed

end
